theory Spec2Isabelle
  imports Main "HOL-Library.Sublist"
begin

section \<open>Values and errors\<close>

text \<open>
  The documents read by \<^verbatim>\<open>yaml.safe_load\<close> are trees of mappings, sequences and
  scalars. A Python \<^verbatim>\<open>dict\<close> keeps its insertion order, so a mapping is an association
  list; its keys are the strings the lookups of this program use. A \<^verbatim>\<open>str\<close> of a
  document is a \<^typ>\<open>string\<close>, one character per code point, which covers the code
  points below 256. Numbers are \<^typ>\<open>int\<close>; no operation of the program looks inside
  a number.
\<close>

datatype yaml =
    YNull
  | YBool bool
  | YInt int
  | YStr string
  | YList "yaml list"
  | YDict "(string \<times> yaml) list"

text \<open>The exceptions the modelled code raises or lets through.\<close>

datatype error =
    KeyError string
  | TypeError
  | AttributeError
  | FileNotFoundError
  | YAMLError
  | ValueError
  | InvalidToken
  | BinasciiError
  | UnicodeEncodeError
  | UnicodeDecodeError

text \<open>
  What opening and parsing the backing file gives: \<^verbatim>\<open>open\<close> raises
  \<^verbatim>\<open>FileNotFoundError\<close>, \<^verbatim>\<open>yaml.safe_load\<close> raises on malformed text, or the parse
  is returned.
\<close>

datatype file_read = Missing | Malformed | Parsed yaml

text \<open>\<^verbatim>\<open>d[k]\<close> with a string \<^verbatim>\<open>k\<close>: a key lookup on a mapping, a \<^verbatim>\<open>TypeError\<close> on
  every other value (a list or a string takes integer indices, the other scalars take none).\<close>

fun subscript :: "yaml \<Rightarrow> string \<Rightarrow> error + yaml" where
  "subscript (YDict kvs) k =
     (case map_of kvs k of None \<Rightarrow> Inl (KeyError k) | Some v \<Rightarrow> Inr v)"
| "subscript _ k = Inl TypeError"

text \<open>\<^verbatim>\<open>k in d\<close> with a string \<^verbatim>\<open>k\<close>: key membership on a mapping, element membership
  on a list, the substring test on a string, a \<^verbatim>\<open>TypeError\<close> on the other scalars.\<close>

fun py_in :: "string \<Rightarrow> yaml \<Rightarrow> error + bool" where
  "py_in k (YDict kvs) = Inr (k \<in> set (map fst kvs))"
| "py_in k (YList xs) = Inr (YStr k \<in> set xs)"
| "py_in k (YStr t) = Inr (sublist k t)"
| "py_in k _ = Inl TypeError"

text \<open>\<^verbatim>\<open>str.upper()\<close> on ASCII text: the letters a to z are raised, every other
  ASCII character is kept. Code points from 128 on are outside this model of
  \<^verbatim>\<open>upper\<close>; \<open>ascii\<close> marks the strings it is exact on.\<close>

definition upper_char :: "char \<Rightarrow> char" where
  "upper_char c =
     (case map_of (zip ''abcdefghijklmnopqrstuvwxyz'' ''ABCDEFGHIJKLMNOPQRSTUVWXYZ'') c of
        Some u \<Rightarrow> u
      | None \<Rightarrow> c)"

definition upper :: "string \<Rightarrow> string" where
  "upper s = map upper_char s"

definition ascii :: "string \<Rightarrow> bool" where
  "ascii s = list_all (\<lambda>c. (of_char c :: nat) < 128) s"

text \<open>\<^verbatim>\<open>v.upper()\<close> on a document value: only a string has the method.\<close>

fun upper_of :: "yaml \<Rightarrow> error + string" where
  "upper_of (YStr s) = Inr (upper s)"
| "upper_of _ = Inl AttributeError"

section \<open>Locator types\<close>

text \<open>The enumeration \<^verbatim>\<open>LocatorType\<close>. Its values are the constants of the Appium
  client's \<^verbatim>\<open>AppiumBy\<close>, a library outside the repository; the repository's test
  \<^verbatim>\<open>test_get_locator\<close> fixes the first one to \<^verbatim>\<open>"id"\<close>.\<close>

datatype LocatorType =
    ID | NAME | CLASS_NAME | TAG_NAME | XPATH | CSS_SELECTOR | LINK_TEXT
  | PARTIAL_LINK_TEXT | ACCESSIBILITY_ID | IMAGE | ANDROID_DATA_MATCHER
  | ANDROID_UIAUTOMATOR | ANDROID_VIEWTAG | IOS_CLASS_CHAIN | IOS_PREDICATE | CUSTOM

fun locator_value :: "LocatorType \<Rightarrow> string" where
  "locator_value ID = ''id''"
| "locator_value NAME = ''name''"
| "locator_value CLASS_NAME = ''class name''"
| "locator_value TAG_NAME = ''tag name''"
| "locator_value XPATH = ''xpath''"
| "locator_value CSS_SELECTOR = ''css selector''"
| "locator_value LINK_TEXT = ''link text''"
| "locator_value PARTIAL_LINK_TEXT = ''partial link text''"
| "locator_value ACCESSIBILITY_ID = ''accessibility id''"
| "locator_value IMAGE = ''-image''"
| "locator_value ANDROID_DATA_MATCHER = ''-android datamatcher''"
| "locator_value ANDROID_UIAUTOMATOR = ''-android uiautomator''"
| "locator_value ANDROID_VIEWTAG = ''-android viewtag''"
| "locator_value IOS_CLASS_CHAIN = ''-ios class chain''"
| "locator_value IOS_PREDICATE = ''-ios predicate string''"
| "locator_value CUSTOM = ''-custom''"

text \<open>\<^verbatim>\<open>LocatorType[name]\<close>: the member of that name, \<^verbatim>\<open>KeyError\<close> when there is none.\<close>

definition LocatorType_members :: "(string \<times> LocatorType) list" where
  "LocatorType_members =
     [(''ID'', ID), (''NAME'', NAME), (''CLASS_NAME'', CLASS_NAME), (''TAG_NAME'', TAG_NAME),
      (''XPATH'', XPATH), (''CSS_SELECTOR'', CSS_SELECTOR), (''LINK_TEXT'', LINK_TEXT),
      (''PARTIAL_LINK_TEXT'', PARTIAL_LINK_TEXT), (''ACCESSIBILITY_ID'', ACCESSIBILITY_ID),
      (''IMAGE'', IMAGE), (''ANDROID_DATA_MATCHER'', ANDROID_DATA_MATCHER),
      (''ANDROID_UIAUTOMATOR'', ANDROID_UIAUTOMATOR), (''ANDROID_VIEWTAG'', ANDROID_VIEWTAG),
      (''IOS_CLASS_CHAIN'', IOS_CLASS_CHAIN), (''IOS_PREDICATE'', IOS_PREDICATE),
      (''CUSTOM'', CUSTOM)]"

definition LocatorType_item :: "string \<Rightarrow> error + LocatorType" where
  "LocatorType_item name =
     (case map_of LocatorType_members name of
        None \<Rightarrow> Inl (KeyError name)
      | Some m \<Rightarrow> Inr m)"

section \<open>LocatorManager\<close>

text \<open>The manager's mutable state is its cache, a dictionary from screen names to
  whatever was stored under them. The platform and the file name are fixed at construction;
  what the file holds when it is read is the \<^typ>\<open>file_read\<close> passed to each call.\<close>

record LocatorManager =
  locators_cache :: "string \<rightharpoonup> yaml"

definition LocatorManager_init :: LocatorManager where
  "LocatorManager_init = \<lparr>locators_cache = Map.empty\<rparr>"

definition load_locators :: "file_read \<Rightarrow> error + yaml" where
  "load_locators f =
     (case f of
        Missing \<Rightarrow> Inl FileNotFoundError
      | Malformed \<Rightarrow> Inl YAMLError
      | Parsed d \<Rightarrow> Inr d)"

definition element_not_found :: "string \<Rightarrow> string \<Rightarrow> string" where
  "element_not_found element screen =
     ''Element '' @ [CHR 0x27] @ element @ [CHR 0x27] @ '' not found in screen '' @
     [CHR 0x27] @ screen @ [CHR 0x27]"

definition screen_not_found :: "string \<Rightarrow> string" where
  "screen_not_found screen =
     ''Screen '' @ [CHR 0x27] @ screen @ [CHR 0x27] @ '' not found in locators''"

text \<open>The body of the \<^verbatim>\<open>try\<close> in \<^verbatim>\<open>get_locator\<close>: the cached value is indexed by the
  element, the entry by \<^verbatim>\<open>"type"\<close>, the type is upper-cased and looked up in the
  enumeration, and then the entry is indexed by \<^verbatim>\<open>"value"\<close>, in this order.\<close>

definition locator_tuple :: "(string \<rightharpoonup> yaml) \<Rightarrow> string \<Rightarrow> string \<Rightarrow> error + (string \<times> yaml)" where
  "locator_tuple cache screen element =
     (case cache screen of
        None \<Rightarrow> Inl (KeyError screen)
      | Some cached \<Rightarrow>
          (case subscript cached element of
             Inl e \<Rightarrow> Inl e
           | Inr locator_data \<Rightarrow>
               (case subscript locator_data ''type'' of
                  Inl e \<Rightarrow> Inl e
                | Inr ty \<Rightarrow>
                    (case upper_of ty of
                       Inl e \<Rightarrow> Inl e
                     | Inr name \<Rightarrow>
                         (case LocatorType_item name of
                            Inl e \<Rightarrow> Inl e
                          | Inr member \<Rightarrow>
                              (case subscript locator_data ''value'' of
                                 Inl e \<Rightarrow> Inl e
                               | Inr v \<Rightarrow> Inr (locator_value member, v)))))))"

text \<open>\<^verbatim>\<open>except KeyError\<close>: every \<^verbatim>\<open>KeyError\<close> of the body is replaced by one with the
  message of \<^verbatim>\<open>get_locator\<close>; other exceptions pass.\<close>

fun except_KeyError :: "string \<Rightarrow> error + 'a \<Rightarrow> error + 'a" where
  "except_KeyError msg (Inl (KeyError _)) = Inl (KeyError msg)"
| "except_KeyError msg r = r"

definition get_locator ::
  "file_read \<Rightarrow> string \<Rightarrow> string \<Rightarrow> LocatorManager \<Rightarrow> (error + (string \<times> yaml)) \<times> LocatorManager" where
  "get_locator f screen element m =
     (if screen \<notin> dom (locators_cache m) then
        (case load_locators f of
           Inl e \<Rightarrow> (Inl e, m)
         | Inr d \<Rightarrow>
             (let m' = m\<lparr>locators_cache := (locators_cache m)(screen \<mapsto> d)\<rparr>
              in (except_KeyError (element_not_found element screen)
                    (locator_tuple (locators_cache m') screen element), m')))
      else
        (except_KeyError (element_not_found element screen)
           (locator_tuple (locators_cache m) screen element), m))"

definition get_locators ::
  "file_read \<Rightarrow> string \<Rightarrow> LocatorManager \<Rightarrow> (error + yaml) \<times> LocatorManager" where
  "get_locators f screen m =
     (case locators_cache m screen of
        Some cached \<Rightarrow> (Inr cached, m)
      | None \<Rightarrow>
          (case load_locators f of
             Inl e \<Rightarrow> (Inl e, m)
           | Inr locators \<Rightarrow>
               (case py_in screen locators of
                  Inl e \<Rightarrow> (Inl e, m)
                | Inr False \<Rightarrow> (Inl (KeyError (screen_not_found screen)), m)
                | Inr True \<Rightarrow>
                    (case subscript locators screen of
                       Inl e \<Rightarrow> (Inl e, m)
                     | Inr v \<Rightarrow> (Inr v, m\<lparr>locators_cache := (locators_cache m)(screen \<mapsto> v)\<rparr>)))))"

definition set_locators :: "string \<Rightarrow> yaml \<Rightarrow> LocatorManager \<Rightarrow> LocatorManager" where
  "set_locators screen locators m = m\<lparr>locators_cache := (locators_cache m)(screen \<mapsto> locators)\<rparr>"

section \<open>DataManager\<close>

text \<open>\<^verbatim>\<open>data.startswith('ENC[')\<close> and the slice \<^verbatim>\<open>data[4:-1]\<close>: the slice runs from
  index 4 up to, and without, the last index.\<close>

definition is_encrypted :: "string \<Rightarrow> bool" where
  "is_encrypted s = prefix ''ENC['' s"

definition payload :: "string \<Rightarrow> string" where
  "payload s = drop 4 (take (length s - 1) s)"

text \<open>\<^verbatim>\<open>_process_secrets\<close>, with the bound \<^verbatim>\<open>SecretManager.decrypt\<close> as the parameter
  \<open>decrypt\<close>: any function from payloads to a plaintext or an exception, so that what
  is proved holds for every cipher. The two comprehensions visit the items in order and
  stop at the first exception.\<close>

fun process_secrets :: "(string \<Rightarrow> error + string) \<Rightarrow> yaml \<Rightarrow> error + yaml"
  and process_items :: "(string \<Rightarrow> error + string) \<Rightarrow> (string \<times> yaml) list \<Rightarrow> error + (string \<times> yaml) list"
  and process_list :: "(string \<Rightarrow> error + string) \<Rightarrow> yaml list \<Rightarrow> error + yaml list"
where
  "process_secrets decrypt (YDict kvs) =
     (case process_items decrypt kvs of Inl e \<Rightarrow> Inl e | Inr kvs' \<Rightarrow> Inr (YDict kvs'))"
| "process_secrets decrypt (YList xs) =
     (case process_list decrypt xs of Inl e \<Rightarrow> Inl e | Inr xs' \<Rightarrow> Inr (YList xs'))"
| "process_secrets decrypt (YStr s) =
     (if is_encrypted s then
        (case decrypt (payload s) of Inl e \<Rightarrow> Inl e | Inr p \<Rightarrow> Inr (YStr p))
      else Inr (YStr s))"
| "process_secrets decrypt YNull = Inr YNull"
| "process_secrets decrypt (YBool b) = Inr (YBool b)"
| "process_secrets decrypt (YInt n) = Inr (YInt n)"
| "process_items decrypt [] = Inr []"
| "process_items decrypt ((k, v) # kvs) =
     (case process_secrets decrypt v of
        Inl e \<Rightarrow> Inl e
      | Inr v' \<Rightarrow>
          (case process_items decrypt kvs of
             Inl e \<Rightarrow> Inl e
           | Inr kvs' \<Rightarrow> Inr ((k, v') # kvs')))"
| "process_list decrypt [] = Inr []"
| "process_list decrypt (x # xs) =
     (case process_secrets decrypt x of
        Inl e \<Rightarrow> Inl e
      | Inr x' \<Rightarrow>
          (case process_list decrypt xs of
             Inl e \<Rightarrow> Inl e
           | Inr xs' \<Rightarrow> Inr (x' # xs')))"

record DataManager =
  secret_manager :: "string \<Rightarrow> error + string"
  test_data :: yaml

text \<open>\<^verbatim>\<open>_load_data\<close>: the existence check, the parse, then \<^verbatim>\<open>_process_secrets\<close>.\<close>

definition load_data :: "(string \<Rightarrow> error + string) \<Rightarrow> file_read \<Rightarrow> error + yaml" where
  "load_data decrypt f =
     (case f of
        Missing \<Rightarrow> Inl FileNotFoundError
      | Malformed \<Rightarrow> Inl YAMLError
      | Parsed d \<Rightarrow> process_secrets decrypt d)"

text \<open>\<^verbatim>\<open>DataManager.__init__\<close>: the \<^verbatim>\<open>SecretManager\<close> is built first (\<open>sm\<close> is what its
  constructor gives for the configured key, an exception or the bound \<^verbatim>\<open>decrypt\<close>), then
  the data is loaded; the object exists only if both succeed.\<close>

definition DataManager_init ::
  "error + (string \<Rightarrow> error + string) \<Rightarrow> file_read \<Rightarrow> error + DataManager" where
  "DataManager_init sm f =
     (case sm of
        Inl e \<Rightarrow> Inl e
      | Inr decrypt \<Rightarrow>
          (case load_data decrypt f of
             Inl e \<Rightarrow> Inl e
           | Inr d \<Rightarrow> Inr \<lparr>secret_manager = decrypt, test_data = d\<rparr>))"

text \<open>\<^verbatim>\<open>self._data.get(test_name, {})\<close>: only a mapping has the method \<^verbatim>\<open>get\<close>.\<close>

fun get_test_data :: "DataManager \<Rightarrow> string \<Rightarrow> error + yaml" where
  "get_test_data dm test_name =
     (case test_data dm of
        YDict kvs \<Rightarrow> Inr (case map_of kvs test_name of None \<Rightarrow> YDict [] | Some v \<Rightarrow> v)
      | _ \<Rightarrow> Inl AttributeError)"

definition get_all_test_data :: "DataManager \<Rightarrow> yaml" where
  "get_all_test_data dm = test_data dm"

section \<open>Notions used to state the properties\<close>

text \<open>The payloads of the marked string leaves of a document, in the order
  \<^verbatim>\<open>_process_secrets\<close> reaches them. Marked, here and below, is what the code treats as
  encrypted: a string that starts with \<^verbatim>\<open>ENC[\<close>.\<close>

fun secrets :: "yaml \<Rightarrow> string list"
  and secrets_items :: "(string \<times> yaml) list \<Rightarrow> string list"
  and secrets_list :: "yaml list \<Rightarrow> string list"
where
  "secrets (YDict kvs) = secrets_items kvs"
| "secrets (YList xs) = secrets_list xs"
| "secrets (YStr s) = (if is_encrypted s then [payload s] else [])"
| "secrets YNull = []"
| "secrets (YBool b) = []"
| "secrets (YInt n) = []"
| "secrets_items [] = []"
| "secrets_items ((k, v) # kvs) = secrets v @ secrets_items kvs"
| "secrets_list [] = []"
| "secrets_list (x # xs) = secrets x @ secrets_list xs"

text \<open>The exception of the first payload, in that order, that does not decrypt.\<close>

fun first_failure :: "(string \<Rightarrow> error + string) \<Rightarrow> string list \<Rightarrow> error option" where
  "first_failure decrypt [] = None"
| "first_failure decrypt (p # ps) =
     (case decrypt p of Inl e \<Rightarrow> Some e | Inr _ \<Rightarrow> first_failure decrypt ps)"

text \<open>The marker of an encrypted scalar in the specification's words: the fixed prefix
  \<^verbatim>\<open>ENC[\<close> and the fixed suffix \<^verbatim>\<open>]\<close>. The code tests the prefix alone
  (\<open>is_encrypted\<close>).\<close>

definition is_encrypted_scalar :: "string \<Rightarrow> bool" where
  "is_encrypted_scalar s = (prefix ''ENC['' s \<and> suffix '']'' s)"

text \<open>The shape invariant, with the marker the code tests: two trees are related when
  mappings have the same keys in the same order with related values, sequences have the
  same length with related elements in the same order, a string leaf that starts with
  \<^verbatim>\<open>ENC[\<close> stands against some string, and every other leaf stands against itself.\<close>

fun only_secrets_changed :: "yaml \<Rightarrow> yaml \<Rightarrow> bool"
  and only_secrets_changed_items :: "(string \<times> yaml) list \<Rightarrow> (string \<times> yaml) list \<Rightarrow> bool"
  and only_secrets_changed_list :: "yaml list \<Rightarrow> yaml list \<Rightarrow> bool"
where
  "only_secrets_changed (YDict kvs) y =
     (case y of YDict kvs' \<Rightarrow> only_secrets_changed_items kvs kvs' | _ \<Rightarrow> False)"
| "only_secrets_changed (YList xs) y =
     (case y of YList xs' \<Rightarrow> only_secrets_changed_list xs xs' | _ \<Rightarrow> False)"
| "only_secrets_changed (YStr s) y =
     (if is_encrypted s then (case y of YStr _ \<Rightarrow> True | _ \<Rightarrow> False) else y = YStr s)"
| "only_secrets_changed YNull y = (y = YNull)"
| "only_secrets_changed (YBool b) y = (y = YBool b)"
| "only_secrets_changed (YInt n) y = (y = YInt n)"
| "only_secrets_changed_items [] kvs' = (kvs' = [])"
| "only_secrets_changed_items ((k, v) # kvs) kvs' =
     (case kvs' of
        [] \<Rightarrow> False
      | (k', v') # rest \<Rightarrow>
          k' = k \<and> only_secrets_changed v v' \<and> only_secrets_changed_items kvs rest)"
| "only_secrets_changed_list [] xs' = (xs' = [])"
| "only_secrets_changed_list (x # xs) xs' =
     (case xs' of
        [] \<Rightarrow> False
      | x' # rest \<Rightarrow> only_secrets_changed x x' \<and> only_secrets_changed_list xs rest)"

text \<open>The place of a value in a document: the chain of mapping keys and sequence indices
  that leads to it.\<close>

datatype step = Key string | Index nat

fun child :: "yaml \<Rightarrow> step \<Rightarrow> yaml option" where
  "child (YDict kvs) (Key k) = map_of kvs k"
| "child (YList xs) (Index i) = (if i < length xs then Some (xs ! i) else None)"
| "child _ _ = None"

primrec at_path :: "yaml \<Rightarrow> step list \<Rightarrow> yaml option" where
  "at_path v [] = Some v"
| "at_path v (st # p) = (case child v st of None \<Rightarrow> None | Some c \<Rightarrow> at_path c p)"

subsection \<open>Example documents\<close>

text \<open>The fixtures of the repository's tests and of the specification's examples.\<close>

definition login_screen :: yaml where
  "login_screen = YDict
     [(''username'', YDict [(''type'', YStr ''id''), (''value'', YStr ''username_field'')]),
      (''password'', YDict [(''type'', YStr ''xpath''), (''value'', YStr ''//input[@type=password]'')])]"

definition login_doc :: yaml where
  "login_doc = YDict [(''login_screen'', login_screen)]"

definition bogus_screen :: yaml where
  "bogus_screen = YDict
     [(''username'', YDict [(''type'', YStr ''bogus''), (''value'', YStr ''username_field'')])]"

definition mixed_case_screen :: yaml where
  "mixed_case_screen = YDict
     [(''username'', YDict [(''type'', YStr ''Id''), (''value'', YStr ''username_field'')])]"

definition secret_doc :: yaml where
  "secret_doc = YDict
     [(''plain'', YStr ''text''),
      (''secret'', YStr ''ENC[encrypted]''),
      (''nested'', YDict [(''secret'', YStr ''ENC[nested_encrypted]'')]),
      (''list'', YList [YStr ''plain'', YStr ''ENC[list_encrypted]''])]"

definition secret_doc_processed :: yaml where
  "secret_doc_processed = YDict
     [(''plain'', YStr ''text''),
      (''secret'', YStr ''decrypted''),
      (''nested'', YDict [(''secret'', YStr ''decrypted'')]),
      (''list'', YList [YStr ''plain'', YStr ''decrypted''])]"

definition plain_doc :: yaml where
  "plain_doc = YDict
     [(''plain'', YStr ''text''),
      (''nested'', YDict [(''value'', YStr ''plain'')]),
      (''list'', YList [YStr ''plain'', YStr ''also_plain''])]"

text \<open>A document with marked leaves below a mapping and a sequence, one of them without
  the closing bracket, and a document whose only string starts with the prefix and is no
  encrypted scalar.\<close>

definition nested_doc :: yaml where
  "nested_doc = YDict
     [(''secret'', YStr ''ENC[payload''),
      (''list'', YList [YStr ''plain'', YStr ''ENC[abc]''])]"

definition prefix_only_doc :: yaml where
  "prefix_only_doc = YDict [(''note'', YStr ''ENC[ is the prefix'')]"

text \<open>Two stand-ins for a bound \<^verbatim>\<open>decrypt\<close>: the patch of the repository's tests, which
  returns \<^verbatim>\<open>'decrypted'\<close> for every payload, and a cipher that rejects every payload.\<close>

definition decrypt_patched :: "string \<Rightarrow> error + string" where
  "decrypt_patched p = Inr ''decrypted''"

definition decrypt_rejecting :: "string \<Rightarrow> error + string" where
  "decrypt_rejecting p = Inl InvalidToken"

section \<open>SecretManager\<close>

text \<open>
  \<^verbatim>\<open>SecretManager\<close> wraps a \<^verbatim>\<open>Fernet\<close> object of the \<^verbatim>\<open>cryptography\<close> library between
  two codecs of the standard library: \<^verbatim>\<open>str.encode\<close> / \<^verbatim>\<open>bytes.decode\<close> (UTF-8) and
  \<^verbatim>\<open>base64.b64encode\<close> / \<^verbatim>\<open>base64.b64decode\<close>. The codecs are modelled here; the cipher
  is a parameter. In this section a \<^verbatim>\<open>str\<close> is the list of its code points and a
  \<^verbatim>\<open>bytes\<close> value is a list of 8-bit characters.
\<close>

type_synonym bytes = "char list"

type_synonym str = "nat list"

definition str_of :: "string \<Rightarrow> str" where
  "str_of s = map of_char s"

subsection \<open>UTF-8\<close>


text \<open>\<^verbatim>\<open>data.encode()\<close>: one to four bytes for each code point; a surrogate raises
  \<^verbatim>\<open>UnicodeEncodeError\<close>.\<close>

definition encode_code_point :: "nat \<Rightarrow> error + bytes" where
  "encode_code_point c =
     (if c < 0x80 then Inr [char_of c]
      else if c < 0x800 then Inr [char_of (0xC0 + c div 64), char_of (0x80 + c mod 64)]
      else if c < 0x10000 then
        (if 0xD800 \<le> c \<and> c < 0xE000 then Inl UnicodeEncodeError
         else Inr [char_of (0xE0 + c div 4096), char_of (0x80 + c div 64 mod 64),
                   char_of (0x80 + c mod 64)])
      else if c < 0x110000 then
        Inr [char_of (0xF0 + c div 262144), char_of (0x80 + c div 4096 mod 64),
             char_of (0x80 + c div 64 mod 64), char_of (0x80 + c mod 64)]
      else Inl UnicodeEncodeError)"

fun str_encode :: "str \<Rightarrow> error + bytes" where
  "str_encode [] = Inr []"
| "str_encode (c # cs) =
     (case encode_code_point c of
        Inl e \<Rightarrow> Inl e
      | Inr b \<Rightarrow> (case str_encode cs of Inl e \<Rightarrow> Inl e | Inr bs \<Rightarrow> Inr (b @ bs)))"

text \<open>\<^verbatim>\<open>bytes.decode()\<close>: the strict decoder, which raises \<^verbatim>\<open>UnicodeDecodeError\<close> on a
  stray or missing continuation byte, an overlong form, a surrogate and a value above
  \<^verbatim>\<open>U+10FFFF\<close>.\<close>

definition continuation :: "char \<Rightarrow> bool" where
  "continuation c = (128 \<le> (of_char c :: nat) \<and> (of_char c :: nat) < 192)"

fun bytes_decode :: "bytes \<Rightarrow> error + str" where
  "bytes_decode [] = Inr []"
| "bytes_decode (b0 # bs) =
     (let n0 = (of_char b0 :: nat) in
      if n0 < 0x80 then
        (case bytes_decode bs of Inl e \<Rightarrow> Inl e | Inr cs \<Rightarrow> Inr (n0 # cs))
      else if 0xC0 \<le> n0 \<and> n0 < 0xE0 then
        (case bs of
           b1 # r \<Rightarrow>
             (let c = (n0 - 0xC0) * 64 + (of_char b1 - 0x80) in
              if continuation b1 \<and> 0x80 \<le> c then
                (case bytes_decode r of Inl e \<Rightarrow> Inl e | Inr cs \<Rightarrow> Inr (c # cs))
              else Inl UnicodeDecodeError)
         | _ \<Rightarrow> Inl UnicodeDecodeError)
      else if 0xE0 \<le> n0 \<and> n0 < 0xF0 then
        (case bs of
           b1 # b2 # r \<Rightarrow>
             (let c = (n0 - 0xE0) * 4096 + (of_char b1 - 0x80) * 64 + (of_char b2 - 0x80) in
              if continuation b1 \<and> continuation b2 \<and> 0x800 \<le> c
                 \<and> \<not> (0xD800 \<le> c \<and> c < 0xE000) then
                (case bytes_decode r of Inl e \<Rightarrow> Inl e | Inr cs \<Rightarrow> Inr (c # cs))
              else Inl UnicodeDecodeError)
         | _ \<Rightarrow> Inl UnicodeDecodeError)
      else if 0xF0 \<le> n0 \<and> n0 < 0xF8 then
        (case bs of
           b1 # b2 # b3 # r \<Rightarrow>
             (let c = (n0 - 0xF0) * 262144 + (of_char b1 - 0x80) * 4096
                      + (of_char b2 - 0x80) * 64 + (of_char b3 - 0x80) in
              if continuation b1 \<and> continuation b2 \<and> continuation b3 \<and> 0x10000 \<le> c
                 \<and> c < 0x110000 then
                (case bytes_decode r of Inl e \<Rightarrow> Inl e | Inr cs \<Rightarrow> Inr (c # cs))
              else Inl UnicodeDecodeError)
         | _ \<Rightarrow> Inl UnicodeDecodeError)
      else Inl UnicodeDecodeError)"

subsection \<open>Base64\<close>

definition b64_alphabet :: bytes where
  "b64_alphabet = ''ABCDEFGHIJKLMNOPQRSTUVWXYZabcdefghijklmnopqrstuvwxyz0123456789+/''"

definition table_b2a :: "nat \<Rightarrow> char" where
  "table_b2a n = b64_alphabet ! n"

fun index_of :: "'a \<Rightarrow> 'a list \<Rightarrow> nat option" where
  "index_of x [] = None"
| "index_of x (y # ys) =
     (if x = y then Some 0 else (case index_of x ys of None \<Rightarrow> None | Some i \<Rightarrow> Some (Suc i)))"

definition table_a2b :: "char \<Rightarrow> nat option" where
  "table_a2b c = index_of c b64_alphabet"

text \<open>\<^verbatim>\<open>base64.b64encode\<close>: three bytes give four characters of the alphabet, and a last
  group of one or two bytes is padded with \<^verbatim>\<open>=\<close>.\<close>

fun b64encode :: "bytes \<Rightarrow> bytes" where
  "b64encode [] = []"
| "b64encode [a] =
     (let x = (of_char a :: nat) in
      [table_b2a (x div 4), table_b2a (x mod 4 * 16), CHR ''='', CHR ''=''])"
| "b64encode [a, b] =
     (let x = (of_char a :: nat); y = (of_char b :: nat) in
      [table_b2a (x div 4), table_b2a (x mod 4 * 16 + y div 16), table_b2a (y mod 16 * 4),
       CHR ''=''])"
| "b64encode (a # b # c # rest) =
     (let x = (of_char a :: nat); y = (of_char b :: nat); z = (of_char c :: nat) in
      [table_b2a (x div 4), table_b2a (x mod 4 * 16 + y div 16),
       table_b2a (y mod 16 * 4 + z div 64), table_b2a (z mod 64)]) @ b64encode rest"

text \<open>\<^verbatim>\<open>base64.b64decode(s)\<close> is \<^verbatim>\<open>binascii.a2b_base64\<close> in its default, non-strict
  mode: a loop over the input that keeps the position in the current group of four
  (\<open>quad_pos\<close>), the bits left over from the last character (\<open>leftchar\<close>) and the number
  of padding characters seen since the last data character (\<open>pads\<close>). Characters outside
  the alphabet are skipped; padding that completes a group ends the decoding, and whatever
  follows is not read; input that ends inside a group raises \<^verbatim>\<open>binascii.Error\<close>.\<close>

fun a2b_base64 :: "bytes \<Rightarrow> nat \<Rightarrow> nat \<Rightarrow> nat \<Rightarrow> bytes \<Rightarrow> error + bytes" where
  "a2b_base64 [] quad_pos leftchar pads out =
     (if quad_pos \<noteq> 0 then Inl BinasciiError else Inr out)"
| "a2b_base64 (c # cs) quad_pos leftchar pads out =
     (if c = CHR ''='' then
        (if 2 \<le> quad_pos \<and> 4 \<le> quad_pos + (pads + 1) then Inr out
         else a2b_base64 cs quad_pos leftchar (if 2 \<le> quad_pos then pads + 1 else pads) out)
      else
        (case table_a2b c of
           None \<Rightarrow> a2b_base64 cs quad_pos leftchar pads out
         | Some this_ch \<Rightarrow>
             (if quad_pos = 0 then a2b_base64 cs 1 this_ch 0 out
              else if quad_pos = 1 then
                a2b_base64 cs 2 (this_ch mod 16) 0 (out @ [char_of (leftchar * 4 + this_ch div 16)])
              else if quad_pos = 2 then
                a2b_base64 cs 3 (this_ch mod 4) 0 (out @ [char_of (leftchar * 16 + this_ch div 4)])
              else a2b_base64 cs 0 0 0 (out @ [char_of (leftchar * 64 + this_ch)]))))"

definition b64decode :: "bytes \<Rightarrow> error + bytes" where
  "b64decode s = a2b_base64 s 0 0 0 []"

subsection \<open>The cipher and its wrapper\<close>

text \<open>A \<^verbatim>\<open>Fernet\<close> object bound to its key. \<^verbatim>\<open>Fernet.encrypt\<close> draws an initialisation
  vector and reads the clock, which are the first argument of \<open>fernet_encrypt\<close>;
  \<^verbatim>\<open>Fernet.decrypt\<close> returns the plaintext or raises \<^verbatim>\<open>InvalidToken\<close>, which is
  \<open>None\<close>.\<close>

record Fernet =
  fernet_encrypt :: "bytes \<Rightarrow> bytes \<Rightarrow> bytes"
  fernet_decrypt :: "bytes \<Rightarrow> bytes option"

record SecretManager =
  fernet :: Fernet

text \<open>\<^verbatim>\<open>SecretManager.__init__\<close>: \<open>new\<close> is what \<^verbatim>\<open>Fernet(key)\<close> gives, the object or the
  exception for a malformed key.\<close>

definition SecretManager_init :: "error + Fernet \<Rightarrow> error + SecretManager" where
  "SecretManager_init new = (case new of Inl e \<Rightarrow> Inl e | Inr f \<Rightarrow> Inr \<lparr>fernet = f\<rparr>)"

definition encrypt :: "SecretManager \<Rightarrow> bytes \<Rightarrow> str \<Rightarrow> error + str" where
  "encrypt sm rnd data =
     (case str_encode data of
        Inl e \<Rightarrow> Inl e
      | Inr b \<Rightarrow> bytes_decode (b64encode (fernet_encrypt (fernet sm) rnd b)))"

definition decrypt :: "SecretManager \<Rightarrow> str \<Rightarrow> error + str" where
  "decrypt sm encrypted_data =
     (case str_encode encrypted_data of
        Inl e \<Rightarrow> Inl e
      | Inr b \<Rightarrow>
          (case b64decode b of
             Inl e \<Rightarrow> Inl e
           | Inr token \<Rightarrow>
               (case fernet_decrypt (fernet sm) token of
                  None \<Rightarrow> Inl InvalidToken
                | Some plain \<Rightarrow> bytes_decode plain)))"

text \<open>A stand-in for a \<^verbatim>\<open>Fernet\<close> object, used to show that the assumptions made about
  the library below can be met: the token is the plaintext behind a one-byte key tag.\<close>

definition toy_fernet :: "char \<Rightarrow> Fernet" where
  "toy_fernet k =
     \<lparr>fernet_encrypt = (\<lambda>rnd data. k # data),
      fernet_decrypt = (\<lambda>token. case token of [] \<Rightarrow> None
                          | t # data \<Rightarrow> if t = k then Some data else None)\<rparr>"

definition manager_k :: SecretManager where
  "manager_k = \<lparr>fernet = toy_fernet CHR ''k''\<rparr>"

definition manager_j :: SecretManager where
  "manager_j = \<lparr>fernet = toy_fernet CHR ''j''\<rparr>"


section \<open>Auxiliary lemmas\<close>

lemma map_of_Some_key: "map_of kvs k = Some v \<Longrightarrow> k \<in> fst ` set kvs"
  by (metis map_of_eq_None_iff option.distinct(1))

lemma upper_simps: "upper [] = []" "upper (c # cs) = upper_char c # upper cs"
  by (simp_all add: upper_def)

lemma payload_butlast: "payload s = butlast (drop 4 s)"
  by (simp add: payload_def butlast_conv_take drop_take)

lemma first_failure_append:
  "first_failure dec (ps @ qs) =
     (case first_failure dec ps of Some e \<Rightarrow> Some e | None \<Rightarrow> first_failure dec qs)"
  by (induction ps) (auto split: sum.splits)

lemma first_failure_exists:
  "p \<in> set ps \<Longrightarrow> dec p = Inl e0 \<Longrightarrow>
     \<exists>q e. q \<in> set ps \<and> dec q = Inl e \<and> first_failure dec ps = Some e"
  by (induction ps) (auto split: sum.splits)

lemma first_failure_None:
  "first_failure dec ps = None \<longleftrightarrow> (\<forall>p \<in> set ps. \<exists>t. dec p = Inr t)"
  by (induction ps) (auto split: sum.splits)

text \<open>\<^verbatim>\<open>_process_secrets\<close> raises exactly the exception of the first payload that does
  not decrypt, and returns when every payload decrypts.\<close>

lemma process_secrets_outcome:
  "(case first_failure dec (secrets d) of
      Some e \<Rightarrow> process_secrets dec d = Inl e
    | None \<Rightarrow> (\<exists>d'. process_secrets dec d = Inr d'))"
  "(case first_failure dec (secrets_items kvs) of
      Some e \<Rightarrow> process_items dec kvs = Inl e
    | None \<Rightarrow> (\<exists>kvs'. process_items dec kvs = Inr kvs'))"
  "(case first_failure dec (secrets_list xs) of
      Some e \<Rightarrow> process_list dec xs = Inl e
    | None \<Rightarrow> (\<exists>xs'. process_list dec xs = Inr xs'))"
  by (induction dec d and dec kvs and dec xs
        rule: process_secrets_process_items_process_list.induct)
     (auto simp: first_failure_append split: option.splits sum.splits)

lemma process_secrets_shape:
  "process_secrets dec d = Inr d' \<Longrightarrow> only_secrets_changed d d'"
  "process_items dec kvs = Inr kvs' \<Longrightarrow> only_secrets_changed_items kvs kvs'"
  "process_list dec xs = Inr xs' \<Longrightarrow> only_secrets_changed_list xs xs'"
  by (induction dec d and dec kvs and dec xs arbitrary: d' and kvs' and xs'
        rule: process_secrets_process_items_process_list.induct)
     (auto split: option.splits sum.splits if_splits)

lemma process_secrets_plain:
  "secrets d = [] \<Longrightarrow> process_secrets dec d = Inr d"
  "secrets_items kvs = [] \<Longrightarrow> process_items dec kvs = Inr kvs"
  "secrets_list xs = [] \<Longrightarrow> process_list dec xs = Inr xs"
  by (induction dec d and dec kvs and dec xs
        rule: process_secrets_process_items_process_list.induct)
     (auto split: option.splits sum.splits if_splits)

lemma encrypted_scalar_is_encrypted: "is_encrypted_scalar s \<Longrightarrow> is_encrypted s"
  by (simp add: is_encrypted_scalar_def is_encrypted_def)

text \<open>What \<^verbatim>\<open>_process_secrets\<close> returns has, at every place of the input, the
  materialization of what the input has there.\<close>

lemma process_items_map_of:
  "process_items dec kvs = Inr kvs' \<Longrightarrow> map_of kvs k = Some v \<Longrightarrow>
     \<exists>v'. map_of kvs' k = Some v' \<and> process_secrets dec v = Inr v'"
proof (induction kvs arbitrary: kvs')
  case Nil
  then show ?case by simp
next
  case (Cons kv kvs)
  obtain k0 v0 where kv: "kv = (k0, v0)" by (cases kv)
  from Cons.prems(1) obtain v0' rest where
    r: "process_secrets dec v0 = Inr v0'" "process_items dec kvs = Inr rest"
      "kvs' = (k0, v0') # rest"
    by (auto simp: kv split: sum.splits)
  show ?case
  proof (cases "k = k0")
    case True
    then show ?thesis using Cons.prems(2) r by (simp add: kv)
  next
    case False
    then show ?thesis using Cons.IH [OF r(2)] Cons.prems(2) r by (simp add: kv)
  qed
qed

lemma process_list_nth:
  "process_list dec xs = Inr xs' \<Longrightarrow> i < length xs \<Longrightarrow>
     i < length xs' \<and> process_secrets dec (xs ! i) = Inr (xs' ! i)"
proof (induction xs arbitrary: xs' i)
  case Nil
  then show ?case by simp
next
  case (Cons x xs)
  from Cons.prems(1) obtain x' rest where
    r: "process_secrets dec x = Inr x'" "process_list dec xs = Inr rest" "xs' = x' # rest"
    by (auto split: sum.splits)
  show ?case
  proof (cases i)
    case 0
    then show ?thesis using r by simp
  next
    case (Suc j)
    then show ?thesis using Cons.IH [OF r(2), of j] Cons.prems(2) r by simp
  qed
qed

lemma process_secrets_child:
  assumes "process_secrets dec d = Inr d'" and "child d st = Some c"
  shows "\<exists>c'. child d' st = Some c' \<and> process_secrets dec c = Inr c'"
proof (cases "(d, st)" rule: child.cases)
  case (1 kvs k)
  then obtain kvs' where "process_items dec kvs = Inr kvs'" "d' = YDict kvs'"
    using assms(1) by (auto split: sum.splits)
  then show ?thesis
    using process_items_map_of [of dec kvs kvs' k c] assms(2) 1 by auto
next
  case (2 xs i)
  then obtain xs' where "process_list dec xs = Inr xs'" "d' = YList xs'"
    using assms(1) by (auto split: sum.splits)
  then show ?thesis
    using process_list_nth [of dec xs xs' i] assms(2) 2 by (auto split: if_splits)
qed (use assms(2) in auto)

lemma process_secrets_at_path:
  "process_secrets dec d = Inr d' \<Longrightarrow> at_path d p = Some v \<Longrightarrow>
     \<exists>v'. at_path d' p = Some v' \<and> process_secrets dec v = Inr v'"
proof (induction p arbitrary: d d')
  case Nil
  then show ?case by simp
next
  case (Cons st p)
  from Cons.prems(2) obtain c where c: "child d st = Some c" "at_path c p = Some v"
    by (auto split: option.splits)
  obtain c' where c': "child d' st = Some c'" "process_secrets dec c = Inr c'"
    using process_secrets_child [OF Cons.prems(1) c(1)] by blast
  show ?case
    using Cons.IH [OF c'(2) c(2)] c'(1) by simp
qed

lemma secrets_secret_doc:
  "secrets secret_doc = [''encrypted'', ''nested_encrypted'', ''list_encrypted'']"
  by (simp add: secret_doc_def is_encrypted_def payload_def)

lemma secrets_plain_doc: "secrets plain_doc = []"
  by (simp add: plain_doc_def is_encrypted_def)

section \<open>Lemmas about the codecs\<close>

subsection \<open>Base64 decoding inverts encoding\<close>

lemma index_of_nth: "distinct xs \<Longrightarrow> n < length xs \<Longrightarrow> index_of (xs ! n) xs = Some n"
proof (induction xs arbitrary: n)
  case Nil
  then show ?case by simp
next
  case (Cons x xs)
  show ?case
  proof (cases n)
    case 0
    then show ?thesis by simp
  next
    case (Suc k)
    with Cons.prems have "xs ! k \<noteq> x" "index_of (xs ! k) xs = Some k"
      using Cons.IH [of k] by auto
    with Suc show ?thesis by simp
  qed
qed

lemma index_of_Some: "index_of x xs = Some i \<Longrightarrow> i < length xs \<and> xs ! i = x"
  by (induction xs arbitrary: i) (auto split: if_splits option.splits)

lemma index_of_None: "index_of x xs = None \<longleftrightarrow> x \<notin> set xs"
  by (induction xs) (auto split: option.splits)

lemma b64_alphabet_length: "length b64_alphabet = 64"
  by (simp add: b64_alphabet_def)

lemma b64_alphabet_distinct: "distinct b64_alphabet"
  by (simp add: b64_alphabet_def)

lemma b64_alphabet_no_pad: "CHR ''='' \<notin> set b64_alphabet"
  by (simp add: b64_alphabet_def)

lemma b64_alphabet_ascii: "c \<in> set b64_alphabet \<Longrightarrow> (of_char c :: nat) < 128"
  by (auto simp: b64_alphabet_def)

lemma table_a2b_b2a: "n < 64 \<Longrightarrow> table_a2b (table_b2a n) = Some n"
  by (simp add: table_a2b_def table_b2a_def index_of_nth b64_alphabet_distinct
        b64_alphabet_length)

lemma table_b2a_in: "n < 64 \<Longrightarrow> table_b2a n \<in> set b64_alphabet"
  by (simp add: table_b2a_def b64_alphabet_length)

lemma table_b2a_not_pad: "n < 64 \<Longrightarrow> table_b2a n \<noteq> CHR ''=''"
  using table_b2a_in b64_alphabet_no_pad by metis

lemma a2b_data:
  assumes "n < 64"
  shows "a2b_base64 (table_b2a n # cs) q l p out =
     (if q = 0 then a2b_base64 cs 1 n 0 out
      else if q = 1 then a2b_base64 cs 2 (n mod 16) 0 (out @ [char_of (l * 4 + n div 16)])
      else if q = 2 then a2b_base64 cs 3 (n mod 4) 0 (out @ [char_of (l * 16 + n div 4)])
      else a2b_base64 cs 0 0 0 (out @ [char_of (l * 64 + n)]))"
  using assms by (simp add: table_a2b_b2a table_b2a_not_pad)

lemma a2b_quad:
  assumes "n0 < 64" "n1 < 64" "n2 < 64" "n3 < 64"
  shows "a2b_base64 (table_b2a n0 # table_b2a n1 # table_b2a n2 # table_b2a n3 # cs) 0 l p out =
     a2b_base64 cs 0 0 0
       (out @ [char_of (n0 * 4 + n1 div 16), char_of (n1 mod 16 * 16 + n2 div 4),
               char_of (n2 mod 4 * 64 + n3)])"
  using assms by (simp add: a2b_data del: a2b_base64.simps)

lemma a2b_tail2:
  assumes "n0 < 64" "n1 < 64"
  shows "a2b_base64 [table_b2a n0, table_b2a n1, CHR ''='', CHR ''=''] 0 l p out =
     Inr (out @ [char_of (n0 * 4 + n1 div 16)])"
proof -
  have "a2b_base64 [table_b2a n0, table_b2a n1, CHR ''='', CHR ''=''] 0 l p out =
      a2b_base64 [CHR ''='', CHR ''=''] 2 (n1 mod 16) 0 (out @ [char_of (n0 * 4 + n1 div 16)])"
    using assms by (simp add: a2b_data del: a2b_base64.simps)
  then show ?thesis by simp
qed

lemma a2b_tail3:
  assumes "n0 < 64" "n1 < 64" "n2 < 64"
  shows "a2b_base64 [table_b2a n0, table_b2a n1, table_b2a n2, CHR ''=''] 0 l p out =
     Inr (out @ [char_of (n0 * 4 + n1 div 16), char_of (n1 mod 16 * 16 + n2 div 4)])"
proof -
  have "a2b_base64 [table_b2a n0, table_b2a n1, table_b2a n2, CHR ''=''] 0 l p out =
      a2b_base64 [CHR ''=''] 3 (n2 mod 4) 0
        (out @ [char_of (n0 * 4 + n1 div 16), char_of (n1 mod 16 * 16 + n2 div 4)])"
    using assms by (simp add: a2b_data del: a2b_base64.simps)
  then show ?thesis by simp
qed

lemma divmod_pack:
  fixes a b n :: nat
  assumes "b < n"
  shows "(a * n + b) div n = a" "(a * n + b) mod n = b"
  using assms by simp_all

lemma byte_div_bounds:
  fixes x :: nat
  assumes "x < 256"
  shows "x div 4 < 64" "x div 16 < 16" "x div 64 < 4"
  using assms by arith+

lemma sextets:
  fixes x y z :: nat
  assumes "x < 256" "y < 256" "z < 256"
  shows "x div 4 < 64" "x mod 4 * 16 + y div 16 < 64" "y mod 16 * 4 + z div 64 < 64"
    "z mod 64 < 64" "x mod 4 * 16 < 64" "y mod 16 * 4 < 64"
proof -
  have a: "x mod 4 < 4" "y mod 16 < 16" by simp_all
  note b = byte_div_bounds [OF assms(1)] byte_div_bounds [OF assms(2)] byte_div_bounds [OF assms(3)]
  show "x div 4 < 64" by (rule b)
  show "x mod 4 * 16 + y div 16 < 64" using a b by linarith
  show "y mod 16 * 4 + z div 64 < 64" using a b by linarith
  show "z mod 64 < 64" by simp
  show "x mod 4 * 16 < 64" using a by linarith
  show "y mod 16 * 4 < 64" using a by linarith
qed

lemma octets:
  fixes x y z :: nat
  assumes "x < 256" "y < 256" "z < 256"
  shows "x div 4 * 4 + (x mod 4 * 16 + y div 16) div 16 = x"
    "(x mod 4 * 16 + y div 16) mod 16 * 16 + (y mod 16 * 4 + z div 64) div 4 = y"
    "(y mod 16 * 4 + z div 64) mod 4 * 64 + z mod 64 = z"
    "x div 4 * 4 + (x mod 4 * 16) div 16 = x"
    "(x mod 4 * 16 + y div 16) mod 16 * 16 + (y mod 16 * 4) div 4 = y"
proof -
  have u: "y div 16 < 16" and w: "z div 64 < 4"
    using byte_div_bounds assms by blast+
  show "x div 4 * 4 + (x mod 4 * 16 + y div 16) div 16 = x"
    by (simp only: divmod_pack(1) [OF u] div_mult_mod_eq)
  show "(x mod 4 * 16 + y div 16) mod 16 * 16 + (y mod 16 * 4 + z div 64) div 4 = y"
    by (simp only: divmod_pack(2) [OF u] divmod_pack(1) [OF w] div_mult_mod_eq)
  show "(y mod 16 * 4 + z div 64) mod 4 * 64 + z mod 64 = z"
    by (simp only: divmod_pack(2) [OF w] div_mult_mod_eq)
  show "x div 4 * 4 + (x mod 4 * 16) div 16 = x"
    by simp
  show "(x mod 4 * 16 + y div 16) mod 16 * 16 + (y mod 16 * 4) div 4 = y"
    by (simp only: divmod_pack(2) [OF u]) simp
qed

lemma a2b_b64encode: "a2b_base64 (b64encode bs) 0 l p out = Inr (out @ bs)"
proof (induction bs arbitrary: l p out rule: b64encode.induct)
  case 1
  then show ?case by simp
next
  case (2 a)
  define x :: nat where "x = of_char a"
  have x: "x < 256" by (simp add: x_def)
  have "b64encode [a] = [table_b2a (x div 4), table_b2a (x mod 4 * 16), CHR ''='', CHR ''='']"
    by (simp add: x_def Let_def)
  then have "a2b_base64 (b64encode [a]) 0 l p out =
      Inr (out @ [char_of (x div 4 * 4 + (x mod 4 * 16) div 16)])"
    by (simp only: a2b_tail2 [OF sextets(1) [OF x x x] sextets(5) [OF x x x]])
  also have "x div 4 * 4 + (x mod 4 * 16) div 16 = x"
    by (rule octets(4) [OF x x x])
  finally show ?case by (simp add: x_def)
next
  case (3 a b)
  define x :: nat where "x = of_char a"
  define y :: nat where "y = of_char b"
  have x: "x < 256" and y: "y < 256" by (simp_all add: x_def y_def)
  have "b64encode [a, b] =
      [table_b2a (x div 4), table_b2a (x mod 4 * 16 + y div 16), table_b2a (y mod 16 * 4),
       CHR ''='']"
    by (simp add: x_def y_def Let_def)
  then have "a2b_base64 (b64encode [a, b]) 0 l p out =
      Inr (out @ [char_of (x div 4 * 4 + (x mod 4 * 16 + y div 16) div 16),
                  char_of ((x mod 4 * 16 + y div 16) mod 16 * 16 + (y mod 16 * 4) div 4)])"
    by (simp only: a2b_tail3 [OF sextets(1) [OF x y y] sextets(2) [OF x y y] sextets(6) [OF x y y]])
  then show ?case
    by (simp only: octets(1) [OF x y y] octets(5) [OF x y y]) (simp add: x_def y_def)
next
  case (4 a b c rest)
  define x :: nat where "x = of_char a"
  define y :: nat where "y = of_char b"
  define z :: nat where "z = of_char c"
  have x: "x < 256" and y: "y < 256" and z: "z < 256" by (simp_all add: x_def y_def z_def)
  have "b64encode (a # b # c # rest) =
      table_b2a (x div 4) # table_b2a (x mod 4 * 16 + y div 16) #
      table_b2a (y mod 16 * 4 + z div 64) # table_b2a (z mod 64) # b64encode rest"
    by (simp add: x_def y_def z_def Let_def)
  then have "a2b_base64 (b64encode (a # b # c # rest)) 0 l p out =
      a2b_base64 (b64encode rest) 0 0 0
        (out @ [char_of (x div 4 * 4 + (x mod 4 * 16 + y div 16) div 16),
                char_of ((x mod 4 * 16 + y div 16) mod 16 * 16 + (y mod 16 * 4 + z div 64) div 4),
                char_of ((y mod 16 * 4 + z div 64) mod 4 * 64 + z mod 64)])"
    by (simp only: a2b_quad [OF sextets(1) [OF x y z] sextets(2) [OF x y z]
          sextets(3) [OF x y z] sextets(4) [OF x y z]])
  then have "a2b_base64 (b64encode (a # b # c # rest)) 0 l p out =
      a2b_base64 (b64encode rest) 0 0 0 (out @ [char_of x, char_of y, char_of z])"
    by (simp only: octets(1) [OF x y z] octets(2) [OF x y z] octets(3) [OF x y z])
  then show ?case
    by (simp add: "4.IH" x_def y_def z_def)
qed

lemma b64decode_b64encode: "b64decode (b64encode bs) = Inr bs"
  by (simp add: b64decode_def a2b_b64encode)

subsection \<open>UTF-8 decoding inverts encoding\<close>









lemma char_val: "n < 256 \<Longrightarrow> (of_char (char_of n :: char) :: nat) = n"
  by simp







lemma bytes_decode_ascii:
  "list_all (\<lambda>c. (of_char c :: nat) < 128) bs \<Longrightarrow> bytes_decode bs = Inr (map of_char bs)"
  by (induction bs) simp_all

lemma str_encode_ascii:
  "list_all (\<lambda>c. (of_char c :: nat) < 128) bs \<Longrightarrow> str_encode (map of_char bs) = Inr bs"
  by (induction bs) (simp_all add: encode_code_point_def)

lemma table_b2a_ascii: "n < 64 \<Longrightarrow> (of_char (table_b2a n) :: nat) < 128"
  using table_b2a_in b64_alphabet_ascii by blast

lemma b64encode_ascii: "list_all (\<lambda>c. (of_char c :: nat) < 128) (b64encode bs)"
proof (induction bs rule: b64encode.induct)
  case 1
  then show ?case by simp
next
  case (2 a)
  have x: "(of_char a :: nat) < 256" by simp
  show ?case
    using sextets [OF x x x] by (simp add: Let_def table_b2a_ascii)
next
  case (3 a b)
  have x: "(of_char a :: nat) < 256" and y: "(of_char b :: nat) < 256" by simp_all
  show ?case
    using sextets [OF x y y] by (simp add: Let_def table_b2a_ascii)
next
  case (4 a b c rest)
  have x: "(of_char a :: nat) < 256" and y: "(of_char b :: nat) < 256"
    and z: "(of_char c :: nat) < 256" by simp_all
  show ?case
    using sextets [OF x y z] "4.IH" by (simp add: Let_def table_b2a_ascii)
qed

lemma a2b_base64_error: "a2b_base64 s q l p out = Inl e \<Longrightarrow> e = BinasciiError"
  by (induction s q l p out rule: a2b_base64.induct) (auto split: if_splits option.splits)

lemma b64decode_error: "b64decode s = Inl e \<Longrightarrow> e = BinasciiError"
  unfolding b64decode_def by (rule a2b_base64_error)

lemma str_encode_error: "str_encode s = Inl e \<Longrightarrow> e = UnicodeEncodeError"
  by (induction s arbitrary: e)
     (auto simp: encode_code_point_def split: sum.splits if_splits)

lemma case_sum_Inl_iff:
  "(case r of Inl e \<Rightarrow> Inl e | Inr x \<Rightarrow> Inr (f x)) = Inl e' \<longleftrightarrow> r = Inl e'"
  by (cases r) auto

lemma bytes_decode_error: "bytes_decode b = Inl e \<Longrightarrow> e = UnicodeDecodeError"
proof (induction b arbitrary: e rule: length_induct)
  case (1 b)
  have IH: "\<And>r e. length r < length b \<Longrightarrow> bytes_decode r = Inl e \<Longrightarrow> e = UnicodeDecodeError"
    using "1.IH" by blast
  show ?case
  proof (cases b)
    case Nil
    with "1.prems" show ?thesis by simp
  next
    case (Cons b0 bs)
    define n0 :: nat where "n0 = of_char b0"
    consider (one) "n0 < 0x80" | (two) "0xC0 \<le> n0" "n0 < 0xE0" | (three) "0xE0 \<le> n0" "n0 < 0xF0"
      | (four) "0xF0 \<le> n0" "n0 < 0xF8" | (other) "0x80 \<le> n0" "n0 < 0xC0" | (high) "0xF8 \<le> n0"
      by linarith
    then show ?thesis
    proof cases
      case one
      then have "bytes_decode bs = Inl e"
        using "1.prems" by (simp add: Cons n0_def case_sum_Inl_iff)
      then show ?thesis
        using IH [of bs e] by (simp add: Cons)
    next
      case two
      show ?thesis
      proof (cases bs)
        case Nil
        then show ?thesis
          using "1.prems" two by (simp add: Cons n0_def)
      next
        case bs: (Cons b1 r)
        show ?thesis
        proof (cases "bytes_decode r = Inl e")
          case True
          then show ?thesis using IH [of r e] by (simp add: Cons bs)
        next
          case False
          then show ?thesis
            using "1.prems" two
            by (simp add: Cons bs n0_def Let_def case_sum_Inl_iff split: if_splits)
        qed
      qed
    next
      case three
      show ?thesis
      proof (cases bs)
        case Nil
        then show ?thesis
          using "1.prems" three by (simp add: Cons n0_def)
      next
        case bs: (Cons b1 r1)
        show ?thesis
        proof (cases r1)
          case Nil
          then show ?thesis
            using "1.prems" three by (simp add: Cons bs n0_def)
        next
          case r1: (Cons b2 r)
          show ?thesis
          proof (cases "bytes_decode r = Inl e")
            case True
            then show ?thesis using IH [of r e] by (simp add: Cons bs r1)
          next
            case False
            then show ?thesis
              using "1.prems" three
              by (simp add: Cons bs r1 n0_def Let_def case_sum_Inl_iff split: if_splits)
          qed
        qed
      qed
    next
      case four
      show ?thesis
      proof (cases bs)
        case Nil
        then show ?thesis
          using "1.prems" four by (simp add: Cons n0_def)
      next
        case bs: (Cons b1 r1)
        show ?thesis
        proof (cases r1)
          case Nil
          then show ?thesis
            using "1.prems" four by (simp add: Cons bs n0_def)
        next
          case r1: (Cons b2 r2)
          show ?thesis
          proof (cases r2)
            case Nil
            then show ?thesis
              using "1.prems" four by (simp add: Cons bs r1 n0_def)
          next
            case r2: (Cons b3 r)
            show ?thesis
            proof (cases "bytes_decode r = Inl e")
              case True
              then show ?thesis using IH [of r e] by (simp add: Cons bs r1 r2)
            next
              case False
              then show ?thesis
                using "1.prems" four
                by (simp add: Cons bs r1 r2 n0_def Let_def case_sum_Inl_iff split: if_splits)
            qed
          qed
        qed
      qed
    next
      case other
      then show ?thesis
        using "1.prems" by (simp add: Cons n0_def)
    next
      case high
      then show ?thesis
        using "1.prems" by (simp add: Cons n0_def)
    qed
  qed
qed

text \<open>A character that is neither in the alphabet nor the padding character is skipped by
  \<^verbatim>\<open>b64decode\<close>, so \<^verbatim>\<open>decrypt\<close> does not see it.\<close>

lemma decrypt_skips_foreign_character:
  assumes "table_a2b j = None" and "j \<noteq> CHR ''=''" and "(of_char j :: nat) < 128"
  shows "decrypt sm (of_char j # s) = decrypt sm s"
proof -
  have "encode_code_point (of_char j) = Inr [j]"
    using assms(3) by (simp add: encode_code_point_def)
  then show ?thesis
    using assms(1,2) by (simp add: decrypt_def b64decode_def split: sum.splits)
qed

text \<open>A lone surrogate cannot be encoded, so \<^verbatim>\<open>encrypt\<close> raises on it.\<close>

lemma encrypt_lone_surrogate: "encrypt sm rnd [0xD800] = Inl UnicodeEncodeError"
  by (simp add: encrypt_def encode_code_point_def)

text \<open>The transport form of a token: what \<^verbatim>\<open>encrypt\<close> returns for it, and what
  \<^verbatim>\<open>decrypt\<close> recovers from that.\<close>

lemma encrypt_token:
  assumes "str_encode s = Inr b"
  shows "encrypt sm rnd s = Inr (map of_char (b64encode (fernet_encrypt (fernet sm) rnd b)))"
  using assms by (simp add: encrypt_def bytes_decode_ascii b64encode_ascii)

lemma decrypt_token:
  "decrypt sm (map of_char (b64encode token)) =
     (case fernet_decrypt (fernet sm) token of
        None \<Rightarrow> Inl InvalidToken
      | Some plain \<Rightarrow> bytes_decode plain)"
  by (simp add: decrypt_def str_encode_ascii b64encode_ascii b64decode_b64encode)


lemma toy_fernet_isolation:
  "j \<noteq> k \<Longrightarrow> fernet_decrypt (toy_fernet j) (fernet_encrypt (toy_fernet k) rnd data) = None"
  by (simp add: toy_fernet_def)

lemma b64decode_invalid_data: "b64decode ''invalid-data'' = Inl BinasciiError"
  by (simp add: b64decode_def table_a2b_def b64_alphabet_def)

lemma str_of_ascii:
  "list_all (\<lambda>c. (of_char c :: nat) < 128) s \<Longrightarrow> str_encode (str_of s) = Inr s"
  unfolding str_of_def by (rule str_encode_ascii)


section \<open>Locator lookups\<close>

text \<open>
  Claim C1. On a screen not yet cached, \<^verbatim>\<open>get_locator\<close> should load the document and
  resolve the screen and then the element in it; for the document that defines screen
  \<^verbatim>\<open>login_screen\<close> with element \<^verbatim>\<open>username\<close> of type \<^verbatim>\<open>id\<close> and value
  \<^verbatim>\<open>username_field\<close> the specification expects \<^verbatim>\<open>("id", "username_field")\<close>.
  The code stores the whole document under the screen name and indexes it by the element,
  so the screen is never resolved: on this document the call raises the \<^verbatim>\<open>KeyError\<close> of
  a missing element, and the document stays in the cache under \<^verbatim>\<open>login_screen\<close>.
\<close>

theorem get_locator_from_document:
  "get_locator (Parsed login_doc) ''login_screen'' ''username'' LocatorManager_init =
     (Inl (KeyError (element_not_found ''username'' ''login_screen'')),
      \<lparr>locators_cache = [''login_screen'' \<mapsto> login_doc]\<rparr>)"
  by (simp add: get_locator_def load_locators_def locator_tuple_def LocatorManager_init_def
        login_doc_def)

text \<open>
  Claim C2, as amended. A failed \<^verbatim>\<open>get_locators\<close> leaves the cache as it was; so does
  a \<^verbatim>\<open>get_locator\<close> on an uncached screen whose load fails, and every \<^verbatim>\<open>get_locator\<close>
  on a screen that is already cached; and no \<^verbatim>\<open>get_locator\<close> touches the entry of
  another screen.
\<close>

theorem failed_lookup_cache:
  "(fst (get_locators f screen m) = Inl e \<longrightarrow> snd (get_locators f screen m) = m)
    \<and> (screen \<notin> dom (locators_cache m) \<and> load_locators f = Inl e \<longrightarrow>
         get_locator f screen element m = (Inl e, m))
    \<and> (screen \<in> dom (locators_cache m) \<longrightarrow> snd (get_locator f screen element m) = m)
    \<and> (screen' \<noteq> screen \<longrightarrow>
         locators_cache (snd (get_locator f screen element m)) screen' =
         locators_cache m screen')"
  by (auto simp: get_locator_def get_locators_def Let_def
        split: option.splits sum.splits bool.splits)

theorem failed_lookup_cache_witness:
  "get_locators (Parsed login_doc) ''home_screen'' LocatorManager_init =
     (Inl (KeyError (screen_not_found ''home_screen'')), LocatorManager_init)
   \<and> get_locator Missing ''login_screen'' ''username'' LocatorManager_init =
     (Inl FileNotFoundError, LocatorManager_init)
   \<and> snd (get_locator Missing ''login_screen'' ''submit''
            (set_locators ''login_screen'' login_screen LocatorManager_init)) =
     set_locators ''login_screen'' login_screen LocatorManager_init
   \<and> locators_cache (snd (get_locator (Parsed login_doc) ''login_screen'' ''submit''
            LocatorManager_init)) ''home_screen'' = None"
proof -
  let ?m = "set_locators ''login_screen'' login_screen LocatorManager_init"
  have g: "fst (get_locators (Parsed login_doc) ''home_screen'' LocatorManager_init) =
      Inl (KeyError (screen_not_found ''home_screen''))"
    by (simp add: get_locators_def load_locators_def LocatorManager_init_def login_doc_def)
  have l: "''login_screen'' \<notin> dom (locators_cache LocatorManager_init)
      \<and> load_locators Missing = Inl FileNotFoundError"
    by (simp add: load_locators_def LocatorManager_init_def)
  have d: "''login_screen'' \<in> dom (locators_cache ?m)"
    by (simp add: set_locators_def)
  have n: "''home_screen'' \<noteq> ''login_screen''"
    by simp
  have "snd (get_locators (Parsed login_doc) ''home_screen'' LocatorManager_init) =
      LocatorManager_init"
    using failed_lookup_cache [where f = "Parsed login_doc" and screen = "''home_screen''"
        and m = LocatorManager_init and e = "KeyError (screen_not_found ''home_screen'')"] g
    by blast
  then have 1: "get_locators (Parsed login_doc) ''home_screen'' LocatorManager_init =
     (Inl (KeyError (screen_not_found ''home_screen'')), LocatorManager_init)"
    using g by (simp add: prod_eq_iff)
  have 2: "get_locator Missing ''login_screen'' ''username'' LocatorManager_init =
     (Inl FileNotFoundError, LocatorManager_init)"
    using failed_lookup_cache [where f = Missing and screen = "''login_screen''"
        and m = LocatorManager_init and e = FileNotFoundError and element = "''username''"] l
    by blast
  have 3: "snd (get_locator Missing ''login_screen'' ''submit'' ?m) = ?m"
    using failed_lookup_cache [where f = Missing and screen = "''login_screen''"
        and m = ?m and element = "''submit''"] d
    by blast
  have "locators_cache (snd (get_locator (Parsed login_doc) ''login_screen'' ''submit''
            LocatorManager_init)) ''home_screen'' = locators_cache LocatorManager_init ''home_screen''"
    using failed_lookup_cache [where f = "Parsed login_doc" and screen = "''login_screen''"
        and m = LocatorManager_init and element = "''submit''" and screen' = "''home_screen''"] n
    by blast
  then have 4: "locators_cache (snd (get_locator (Parsed login_doc) ''login_screen'' ''submit''
            LocatorManager_init)) ''home_screen'' = None"
    by (simp add: LocatorManager_init_def)
  from 1 2 3 4 show ?thesis by simp
qed

theorem failed_lookup_cache_counterexample:
  "fst (get_locator (Parsed login_doc) ''login_screen'' ''submit'' LocatorManager_init) =
     Inl (KeyError (element_not_found ''submit'' ''login_screen''))
   \<and> snd (get_locator (Parsed login_doc) ''login_screen'' ''submit'' LocatorManager_init) \<noteq>
     LocatorManager_init"
  by (simp add: get_locator_def load_locators_def locator_tuple_def LocatorManager_init_def
        login_doc_def)

text \<open>
  Claim C3, as amended. For an entry reached through a cached screen mapping whose
  \<^verbatim>\<open>"type"\<close> is an ASCII string: when the upper-cased type is the name of a member of
  \<^verbatim>\<open>LocatorType\<close>, whatever the case of its letters, \<^verbatim>\<open>get_locator\<close> returns that
  member's value with the entry's \<^verbatim>\<open>"value"\<close>; when it is not, \<^verbatim>\<open>get_locator\<close> raises,
  with no default, the \<^verbatim>\<open>KeyError\<close> "Element ... not found in screen ..." that it also
  raises for a missing element. The cache is unchanged in both cases.
\<close>

theorem strategy_validation:
  assumes "locators_cache m screen = Some (YDict els)"
      and "map_of els element = Some (YDict ent)"
      and "map_of ent ''type'' = Some (YStr t)"
      and "map_of ent ''value'' = Some v"
      and "ascii t"
  shows "get_locator f screen element m =
          ((case map_of LocatorType_members (upper t) of
              None \<Rightarrow> Inl (KeyError (element_not_found element screen))
            | Some member \<Rightarrow> Inr (locator_value member, v)), m)"
  using assms
  by (simp add: get_locator_def locator_tuple_def LocatorType_item_def domI split: option.splits)

theorem strategy_validation_witness:
  "get_locator Missing ''login_screen'' ''username''
       (set_locators ''login_screen'' mixed_case_screen LocatorManager_init) =
     (Inr (''id'', YStr ''username_field''),
      set_locators ''login_screen'' mixed_case_screen LocatorManager_init)
   \<and> get_locator Missing ''login_screen'' ''username''
       (set_locators ''login_screen'' bogus_screen LocatorManager_init) =
     (Inl (KeyError (element_not_found ''username'' ''login_screen'')),
      set_locators ''login_screen'' bogus_screen LocatorManager_init)"
proof -
  have a: "ascii ''Id''" "ascii ''bogus''"
    by (simp_all add: ascii_def)
  have u: "map_of LocatorType_members (upper ''Id'') = Some ID"
      "map_of LocatorType_members (upper ''bogus'') = None"
    by (simp_all add: upper_simps upper_char_def LocatorType_members_def)
  have "get_locator Missing ''login_screen'' ''username''
       (set_locators ''login_screen'' mixed_case_screen LocatorManager_init) =
     (Inr (''id'', YStr ''username_field''),
      set_locators ''login_screen'' mixed_case_screen LocatorManager_init)"
    using strategy_validation
        [where m = "set_locators ''login_screen'' mixed_case_screen LocatorManager_init"
          and screen = "''login_screen''" and element = "''username''"
          and els = "[(''username'', YDict [(''type'', YStr ''Id''), (''value'', YStr ''username_field'')])]"
          and ent = "[(''type'', YStr ''Id''), (''value'', YStr ''username_field'')]"
          and t = "''Id''" and v = "YStr ''username_field''" and f = Missing] a u
    by (simp add: set_locators_def mixed_case_screen_def)
  moreover have "get_locator Missing ''login_screen'' ''username''
       (set_locators ''login_screen'' bogus_screen LocatorManager_init) =
     (Inl (KeyError (element_not_found ''username'' ''login_screen'')),
      set_locators ''login_screen'' bogus_screen LocatorManager_init)"
    using strategy_validation
        [where m = "set_locators ''login_screen'' bogus_screen LocatorManager_init"
          and screen = "''login_screen''" and element = "''username''"
          and els = "[(''username'', YDict [(''type'', YStr ''bogus''), (''value'', YStr ''username_field'')])]"
          and ent = "[(''type'', YStr ''bogus''), (''value'', YStr ''username_field'')]"
          and t = "''bogus''" and v = "YStr ''username_field''" and f = Missing] a u
    by (simp add: set_locators_def bogus_screen_def)
  ultimately show ?thesis by simp
qed

text \<open>The claim as stated fails: the exception for the unknown type \<^verbatim>\<open>bogus\<close> is the
  very exception raised when the element is missing from the screen.\<close>

theorem strategy_validation_counterexample:
  "fst (get_locator Missing ''login_screen'' ''username''
          (set_locators ''login_screen'' bogus_screen LocatorManager_init)) =
     Inl (KeyError (element_not_found ''username'' ''login_screen''))
   \<and> fst (get_locator Missing ''login_screen'' ''username''
          (set_locators ''login_screen'' (YDict []) LocatorManager_init)) =
     Inl (KeyError (element_not_found ''username'' ''login_screen''))"
  by (simp add: get_locator_def locator_tuple_def set_locators_def bogus_screen_def
        LocatorType_item_def LocatorType_members_def upper_simps upper_char_def)

text \<open>
  Claim C7, as amended. When the resolved data is a mapping, \<^verbatim>\<open>get_test_data\<close> on an
  absent name returns the empty mapping. When the screen is not in the cache and is absent
  from the loaded mapping, \<^verbatim>\<open>get_locators\<close> raises the \<^verbatim>\<open>KeyError\<close> "Screen ... not found
  in locators" and leaves the cache as it was. When the screen is cached as a mapping of
  elements and the element is absent from it, \<^verbatim>\<open>get_locator\<close> raises the \<^verbatim>\<open>KeyError\<close>
  "Element ... not found in screen ...".
\<close>

theorem lookup_miss_asymmetry:
  "(test_data dm = YDict kvs \<and> map_of kvs test_name = None \<longrightarrow>
      get_test_data dm test_name = Inr (YDict []))
   \<and> (locators_cache m screen = None \<and> map_of locators screen = None \<longrightarrow>
      get_locators (Parsed (YDict locators)) screen m =
        (Inl (KeyError (screen_not_found screen)), m))
   \<and> (locators_cache m screen = Some (YDict els) \<and> map_of els element = None \<longrightarrow>
      get_locator f screen element m =
        (Inl (KeyError (element_not_found element screen)), m))"
proof (intro conjI impI)
  assume "test_data dm = YDict kvs \<and> map_of kvs test_name = None"
  then show "get_test_data dm test_name = Inr (YDict [])"
    by simp
next
  assume h: "locators_cache m screen = None \<and> map_of locators screen = None"
  then have "screen \<notin> fst ` set locators"
    by (simp add: map_of_eq_None_iff)
  with h show "get_locators (Parsed (YDict locators)) screen m =
      (Inl (KeyError (screen_not_found screen)), m)"
    by (simp add: get_locators_def load_locators_def)
next
  assume "locators_cache m screen = Some (YDict els) \<and> map_of els element = None"
  then show "get_locator f screen element m =
      (Inl (KeyError (element_not_found element screen)), m)"
    by (simp add: get_locator_def locator_tuple_def domI)
qed

theorem lookup_miss_asymmetry_witness:
  "get_test_data \<lparr>secret_manager = decrypt_patched, test_data = plain_doc\<rparr> ''nonexistent_test'' =
     Inr (YDict [])
   \<and> get_locators (Parsed login_doc) ''missing_screen'' LocatorManager_init =
     (Inl (KeyError (screen_not_found ''missing_screen'')), LocatorManager_init)
   \<and> get_locator Missing ''login_screen'' ''missing_element''
       (set_locators ''login_screen'' login_screen LocatorManager_init) =
     (Inl (KeyError (element_not_found ''missing_element'' ''login_screen'')),
      set_locators ''login_screen'' login_screen LocatorManager_init)"
proof -
  let ?dm = "\<lparr>secret_manager = decrypt_patched, test_data = plain_doc\<rparr>"
  let ?kvs = "[(''plain'', YStr ''text''), (''nested'', YDict [(''value'', YStr ''plain'')]),
      (''list'', YList [YStr ''plain'', YStr ''also_plain''])]"
  let ?m = "set_locators ''login_screen'' login_screen LocatorManager_init"
  let ?els = "[(''username'', YDict [(''type'', YStr ''id''), (''value'', YStr ''username_field'')]),
      (''password'', YDict [(''type'', YStr ''xpath''), (''value'', YStr ''//input[@type=password]'')])]"
  have h1: "test_data ?dm = YDict ?kvs \<and> map_of ?kvs ''nonexistent_test'' = None"
    by (simp add: plain_doc_def)
  have h2: "locators_cache LocatorManager_init ''missing_screen'' = None
      \<and> map_of [(''login_screen'', login_screen)] ''missing_screen'' = None"
    by (simp add: LocatorManager_init_def)
  have h3: "locators_cache ?m ''login_screen'' = Some (YDict ?els)
      \<and> map_of ?els ''missing_element'' = None"
    by (simp add: set_locators_def login_screen_def)
  have 1: "get_test_data ?dm ''nonexistent_test'' = Inr (YDict [])"
    using lookup_miss_asymmetry [where dm = ?dm and kvs = ?kvs
        and test_name = "''nonexistent_test''"] h1
    by blast
  have 2: "get_locators (Parsed (YDict [(''login_screen'', login_screen)])) ''missing_screen''
        LocatorManager_init =
     (Inl (KeyError (screen_not_found ''missing_screen'')), LocatorManager_init)"
    using lookup_miss_asymmetry [where m = LocatorManager_init
        and screen = "''missing_screen''" and locators = "[(''login_screen'', login_screen)]"] h2
    by blast
  have 3: "get_locator Missing ''login_screen'' ''missing_element'' ?m =
     (Inl (KeyError (element_not_found ''missing_element'' ''login_screen'')), ?m)"
    using lookup_miss_asymmetry [where m = ?m and screen = "''login_screen''"
        and els = ?els and element = "''missing_element''" and f = Missing] h3
    by blast
  from 1 2 3 show ?thesis by (simp add: login_doc_def)
qed

text \<open>The claim as stated fails twice. An empty data file parses to \<^verbatim>\<open>None\<close>, the
  manager is constructed, and \<^verbatim>\<open>get_test_data\<close> raises \<^verbatim>\<open>AttributeError\<close>. A screen
  seeded by \<^verbatim>\<open>set_locators\<close> is returned by \<^verbatim>\<open>get_locators\<close> although the document
  does not have it.\<close>

theorem lookup_miss_asymmetry_counterexample:
  "DataManager_init (Inr decrypt_patched) (Parsed YNull) =
     Inr \<lparr>secret_manager = decrypt_patched, test_data = YNull\<rparr>
   \<and> get_test_data \<lparr>secret_manager = decrypt_patched, test_data = YNull\<rparr> ''nonexistent_test'' =
     Inl AttributeError
   \<and> get_locators (Parsed login_doc) ''missing_screen''
       (set_locators ''missing_screen'' (YDict []) LocatorManager_init) =
     (Inr (YDict []), set_locators ''missing_screen'' (YDict []) LocatorManager_init)"
  by (simp add: DataManager_init_def load_data_def get_locators_def set_locators_def)

text \<open>
  Claim C9. When a screen that is not in the cache is first touched by \<^verbatim>\<open>get_locator\<close>
  and the document loads, the cache entry stored under the screen is the whole document;
  every later \<^verbatim>\<open>get_locators\<close> for that screen returns this document, whatever the file
  then holds and whether or not the document has the screen. \<^verbatim>\<open>get_locators\<close> on
  the same uncached screen stores and returns the screen's own mapping instead.
\<close>

theorem get_locator_caches_document:
  assumes "locators_cache m screen = None"
  shows "locators_cache (snd (get_locator (Parsed doc) screen element m)) screen = Some doc
     \<and> get_locators f screen (snd (get_locator (Parsed doc) screen element m)) =
           (Inr doc, snd (get_locator (Parsed doc) screen element m))
     \<and> (map_of kvs screen = Some v \<longrightarrow>
           get_locators (Parsed (YDict kvs)) screen m =
             (Inr v, m\<lparr>locators_cache := (locators_cache m)(screen \<mapsto> v)\<rparr>))"
  using assms
  by (simp add: get_locator_def get_locators_def load_locators_def domIff map_of_Some_key)

theorem get_locator_caches_document_witness:
  "locators_cache (snd (get_locator (Parsed login_doc) ''missing_screen'' ''username''
       LocatorManager_init)) ''missing_screen'' = Some login_doc
   \<and> fst (get_locators Missing ''missing_screen''
       (snd (get_locator (Parsed login_doc) ''missing_screen'' ''username''
          LocatorManager_init))) = Inr login_doc
   \<and> fst (get_locators (Parsed login_doc) ''login_screen'' LocatorManager_init) =
       Inr login_screen"
proof -
  have h: "locators_cache LocatorManager_init ''missing_screen'' = None"
      "locators_cache LocatorManager_init ''login_screen'' = None"
    by (simp_all add: LocatorManager_init_def)
  have k: "map_of [(''login_screen'', login_screen)] ''login_screen'' = Some login_screen"
    by simp
  show ?thesis
    using get_locator_caches_document [OF h(1), where doc = login_doc
        and element = "''username''" and f = Missing]
      get_locator_caches_document [OF h(2), where kvs = "[(''login_screen'', login_screen)]"
        and v = login_screen] k
    by (simp add: login_doc_def)
qed

section \<open>Materialization of secrets\<close>

text \<open>
  Claim C4, as amended. When a document has a marked string leaf whose payload does not
  decrypt, \<^verbatim>\<open>_process_secrets\<close> raises and the construction of the \<^verbatim>\<open>DataManager\<close>
  raises with it, so no manager with a partly resolved tree exists; the exception is the
  one \<^verbatim>\<open>decrypt\<close> raised for a marked leaf of the document, passed on as it is.
\<close>

theorem failed_secret_aborts:
  assumes "p \<in> set (secrets d)" and "dec p = Inl e0"
  shows "\<exists>q e. q \<in> set (secrets d) \<and> dec q = Inl e
           \<and> process_secrets dec d = Inl e
           \<and> DataManager_init (Inr dec) (Parsed d) = Inl e"
proof -
  obtain q e where q: "q \<in> set (secrets d)" "dec q = Inl e"
      and f: "first_failure dec (secrets d) = Some e"
    using first_failure_exists [of p "secrets d" dec e0] assms by blast
  have "process_secrets dec d = Inl e"
    using process_secrets_outcome(1) [of dec d] f by simp
  then show ?thesis
    using q by (auto simp: DataManager_init_def load_data_def)
qed

theorem failed_secret_aborts_witness:
  "process_secrets decrypt_rejecting secret_doc = Inl InvalidToken
   \<and> DataManager_init (Inr decrypt_rejecting) (Parsed secret_doc) = Inl InvalidToken"
proof -
  have "''encrypted'' \<in> set (secrets secret_doc)"
    by (simp add: secrets_secret_doc)
  moreover have "decrypt_rejecting ''encrypted'' = Inl InvalidToken"
    by (simp add: decrypt_rejecting_def)
  ultimately have "\<exists>q e. q \<in> set (secrets secret_doc) \<and> decrypt_rejecting q = Inl e
           \<and> process_secrets decrypt_rejecting secret_doc = Inl e
           \<and> DataManager_init (Inr decrypt_rejecting) (Parsed secret_doc) = Inl e"
    by (rule failed_secret_aborts)
  then show ?thesis
    by (auto simp: decrypt_rejecting_def)
qed

text \<open>The claim as stated fails: the exception is the cipher's own, and it is the same for
  a failing leaf under the key \<^verbatim>\<open>secret\<close> and for one at index 1 of the list under
  \<^verbatim>\<open>list\<close>; it names no path.\<close>

theorem failed_secret_aborts_counterexample:
  "DataManager_init (Inr decrypt_rejecting)
       (Parsed (YDict [(''secret'', YStr ''ENC[encrypted]'')])) = Inl InvalidToken
   \<and> DataManager_init (Inr decrypt_rejecting)
       (Parsed (YDict [(''list'', YList [YStr ''plain'', YStr ''ENC[encrypted]''])])) =
     Inl InvalidToken"
  by (simp add: DataManager_init_def load_data_def is_encrypted_def decrypt_rejecting_def)

text \<open>
  Claim C5, as amended. \<^verbatim>\<open>_process_secrets\<close> keeps the shape of the tree: whenever it
  returns, the result has the same keys in the same order in every mapping, the same length
  and order in every sequence, and differs from the input only at string leaves that start
  with \<^verbatim>\<open>ENC[\<close>, with or without the closing bracket; a tree with no string leaf that
  starts with \<^verbatim>\<open>ENC[\<close> is returned equal to the input; and it does return whenever the
  payload of every such leaf decrypts.
\<close>

theorem process_secrets_preserves_shape:
  "(process_secrets dec d = Inr d' \<longrightarrow> only_secrets_changed d d')
   \<and> (secrets d = [] \<longrightarrow> process_secrets dec d = Inr d)
   \<and> ((\<forall>p \<in> set (secrets d). \<exists>t. dec p = Inr t) \<longrightarrow>
        (\<exists>r. process_secrets dec d = Inr r))"
proof (intro conjI impI)
  assume "process_secrets dec d = Inr d'"
  then show "only_secrets_changed d d'"
    by (rule process_secrets_shape(1))
next
  assume "secrets d = []"
  then show "process_secrets dec d = Inr d"
    by (rule process_secrets_plain(1))
next
  assume "\<forall>p \<in> set (secrets d). \<exists>t. dec p = Inr t"
  then have "first_failure dec (secrets d) = None"
    by (simp add: first_failure_None)
  then show "\<exists>r. process_secrets dec d = Inr r"
    using process_secrets_outcome(1) [of dec d] by simp
qed

theorem process_secrets_preserves_shape_witness:
  "process_secrets decrypt_patched secret_doc = Inr secret_doc_processed
   \<and> only_secrets_changed secret_doc secret_doc_processed
   \<and> process_secrets decrypt_patched plain_doc = Inr plain_doc
   \<and> process_secrets decrypt_rejecting plain_doc = Inr plain_doc"
proof -
  have r: "process_secrets decrypt_patched secret_doc = Inr secret_doc_processed"
    by (simp add: secret_doc_def secret_doc_processed_def is_encrypted_def decrypt_patched_def)
  have 1: "only_secrets_changed secret_doc secret_doc_processed"
    using process_secrets_preserves_shape [of decrypt_patched secret_doc secret_doc_processed] r
    by blast
  have 2: "process_secrets decrypt_patched plain_doc = Inr plain_doc"
    using process_secrets_preserves_shape [of decrypt_patched plain_doc] secrets_plain_doc
    by blast
  have 3: "process_secrets decrypt_rejecting plain_doc = Inr plain_doc"
    using process_secrets_preserves_shape [of decrypt_rejecting plain_doc] secrets_plain_doc
    by blast
  from r 1 2 3 show ?thesis by simp
qed

text \<open>The claim as stated fails: a string that starts with \<^verbatim>\<open>ENC[\<close> and does not
  end with \<^verbatim>\<open>]\<close> carries no marker, yet it is replaced by what \<^verbatim>\<open>decrypt\<close> returns
  for it, and when \<^verbatim>\<open>decrypt\<close> rejects it the manager is not constructed.\<close>

theorem process_secrets_preserves_shape_counterexample:
  "\<not> is_encrypted_scalar ''ENC[ is the prefix''
   \<and> process_secrets decrypt_patched prefix_only_doc = Inr (YDict [(''note'', YStr ''decrypted'')])
   \<and> process_secrets decrypt_patched prefix_only_doc \<noteq> Inr prefix_only_doc
   \<and> DataManager_init (Inr decrypt_rejecting) (Parsed prefix_only_doc) = Inl InvalidToken"
  by (simp add: is_encrypted_scalar_def suffix_to_prefix prefix_only_doc_def is_encrypted_def
        decrypt_patched_def decrypt_rejecting_def DataManager_init_def load_data_def)

text \<open>
  Claim C10. For every string scalar of a document, at whatever place, that starts with
  \<^verbatim>\<open>ENC[\<close>, \<^verbatim>\<open>_process_secrets\<close> decrypts the string without its first four characters
  and without its last character, whatever the last character is: the closing bracket is
  not looked at. On the scalar itself the result is the plaintext or the exception of that
  decryption; when the materialization of the document returns, the returned tree holds
  the plaintext at the place of the scalar; and when that decryption fails, the
  materialization of the document fails.
\<close>

theorem encrypted_prefix_only:
  assumes "at_path d p = Some (YStr s)" and "prefix ''ENC['' s"
  shows "process_secrets dec (YStr s) =
           (case dec (butlast (drop 4 s)) of Inl e \<Rightarrow> Inl e | Inr t \<Rightarrow> Inr (YStr t))
     \<and> (process_secrets dec d = Inr d' \<longrightarrow>
          (\<exists>t. dec (butlast (drop 4 s)) = Inr t \<and> at_path d' p = Some (YStr t)))
     \<and> (dec (butlast (drop 4 s)) = Inl e \<longrightarrow> (\<exists>e'. process_secrets dec d = Inl e'))"
proof -
  have leaf: "process_secrets dec (YStr s) =
      (case dec (butlast (drop 4 s)) of Inl e \<Rightarrow> Inl e | Inr t \<Rightarrow> Inr (YStr t))"
    using assms(2) by (simp add: is_encrypted_def payload_butlast)
  have ok: "\<exists>t. dec (butlast (drop 4 s)) = Inr t \<and> at_path r p = Some (YStr t)"
    if h: "process_secrets dec d = Inr r" for r
  proof -
    from process_secrets_at_path [OF h assms(1)]
    obtain v' where v': "at_path r p = Some v'" "process_secrets dec (YStr s) = Inr v'"
      by blast
    show ?thesis
    proof (cases "dec (butlast (drop 4 s))")
      case (Inl e)
      then show ?thesis using v'(2) leaf by simp
    next
      case (Inr t)
      then have "v' = YStr t" using v'(2) leaf by simp
      then show ?thesis using Inr v'(1) by simp
    qed
  qed
  have bad: "\<exists>e'. process_secrets dec d = Inl e'" if f: "dec (butlast (drop 4 s)) = Inl e"
  proof (cases "process_secrets dec d")
    case (Inl e')
    then show ?thesis by blast
  next
    case (Inr r)
    from ok [OF Inr] obtain t where "dec (butlast (drop 4 s)) = Inr t" by blast
    with f show ?thesis by simp
  qed
  show ?thesis
  proof (intro conjI impI)
    show "process_secrets dec (YStr s) =
        (case dec (butlast (drop 4 s)) of Inl e \<Rightarrow> Inl e | Inr t \<Rightarrow> Inr (YStr t))"
      by (rule leaf)
    show "\<exists>t. dec (butlast (drop 4 s)) = Inr t \<and> at_path d' p = Some (YStr t)"
      if "process_secrets dec d = Inr d'"
      using that by (rule ok)
    show "\<exists>e'. process_secrets dec d = Inl e'" if "dec (butlast (drop 4 s)) = Inl e"
      using that by (rule bad)
  qed
qed

theorem encrypted_prefix_only_witness:
  "process_secrets Inr nested_doc =
     Inr (YDict [(''secret'', YStr ''payloa''), (''list'', YList [YStr ''plain'', YStr ''abc''])])
   \<and> at_path nested_doc [Key ''secret''] = Some (YStr ''ENC[payload'')
   \<and> (\<exists>d'. process_secrets Inr nested_doc = Inr d'
         \<and> at_path d' [Key ''secret''] = Some (YStr ''payloa'')
         \<and> at_path d' [Key ''list'', Index 1] = Some (YStr ''abc''))
   \<and> process_secrets Inr (YStr ''ENC['') = Inr (YStr [])"
proof -
  let ?r = "YDict [(''secret'', YStr ''payloa''), (''list'', YList [YStr ''plain'', YStr ''abc''])]"
  have r: "process_secrets Inr nested_doc = Inr ?r"
    by (simp add: nested_doc_def is_encrypted_def payload_def)
  have p1: "at_path nested_doc [Key ''secret''] = Some (YStr ''ENC[payload'')"
    and p2: "at_path nested_doc [Key ''list'', Index 1] = Some (YStr ''ENC[abc]'')"
    and p3: "at_path (YStr ''ENC['') [] = Some (YStr ''ENC['')"
    by (simp_all add: nested_doc_def)
  have m: "prefix ''ENC['' ''ENC[payload''" "prefix ''ENC['' ''ENC[abc]''" "prefix ''ENC['' ''ENC[''"
    by simp_all
  have b: "butlast (drop 4 ''ENC[payload'') = ''payloa''" "butlast (drop 4 ''ENC[abc]'') = ''abc''"
    "butlast (drop 4 ''ENC['') = []"
    by simp_all
  have "\<exists>t. Inr (butlast (drop 4 ''ENC[payload'')) = (Inr t :: error + string)
      \<and> at_path ?r [Key ''secret''] = Some (YStr t)"
    using encrypted_prefix_only [OF p1 m(1), where dec = Inr and d' = ?r] r by blast
  then have 1: "at_path ?r [Key ''secret''] = Some (YStr ''payloa'')"
    unfolding b by blast
  have "\<exists>t. Inr (butlast (drop 4 ''ENC[abc]'')) = (Inr t :: error + string)
      \<and> at_path ?r [Key ''list'', Index 1] = Some (YStr t)"
    using encrypted_prefix_only [OF p2 m(2), where dec = Inr and d' = ?r] r by blast
  then have 2: "at_path ?r [Key ''list'', Index 1] = Some (YStr ''abc'')"
    unfolding b by blast
  have "process_secrets Inr (YStr ''ENC['') =
      (case (Inr (butlast (drop 4 ''ENC['')) :: error + string) of
         Inl e \<Rightarrow> Inl e | Inr t \<Rightarrow> Inr (YStr t))"
    using encrypted_prefix_only [OF p3 m(3), where dec = Inr] by blast
  then have 3: "process_secrets Inr (YStr ''ENC['') = Inr (YStr [])"
    unfolding b by simp
  from r p1 1 2 3 show ?thesis by blast
qed

section \<open>The secret cipher\<close>




text \<open>
  Claim C8, as amended. \<^verbatim>\<open>decrypt\<close> raises, and returns no plaintext, in each of these
  cases, with the exception of the layer that rejects the input: a transport string that
  \<^verbatim>\<open>b64decode\<close> rejects raises \<^verbatim>\<open>binascii.Error\<close>; a token that the cipher rejects
  raises \<^verbatim>\<open>InvalidToken\<close>; and when the cipher under one key rejects every token made
  under another key, what \<^verbatim>\<open>encrypt\<close> returns under the second key makes \<^verbatim>\<open>decrypt\<close>
  under the first raise \<^verbatim>\<open>InvalidToken\<close>. Every exception of \<^verbatim>\<open>decrypt\<close> is one of
  \<^verbatim>\<open>UnicodeEncodeError\<close>, \<^verbatim>\<open>binascii.Error\<close>, \<^verbatim>\<open>InvalidToken\<close> and
  \<^verbatim>\<open>UnicodeDecodeError\<close>.
\<close>

theorem decrypt_failures:
  "(str_encode c = Inr b \<and> b64decode b = Inl e \<longrightarrow> decrypt sm c = Inl BinasciiError)
   \<and> (str_encode c = Inr b \<and> b64decode b = Inr token \<and> fernet_decrypt (fernet sm) token = None
        \<longrightarrow> decrypt sm c = Inl InvalidToken)
   \<and> ((\<forall>rnd data. fernet_decrypt (fernet sm) (fernet_encrypt (fernet sm') rnd data) = None)
        \<and> encrypt sm' rnd s = Inr c' \<longrightarrow> decrypt sm c' = Inl InvalidToken)
   \<and> (decrypt sm c = Inl e' \<longrightarrow>
        e' \<in> {UnicodeEncodeError, BinasciiError, InvalidToken, UnicodeDecodeError})"
proof (intro conjI impI)
  assume "str_encode c = Inr b \<and> b64decode b = Inl e"
  then show "decrypt sm c = Inl BinasciiError"
    using b64decode_error [of b e] by (simp add: decrypt_def)
next
  assume "str_encode c = Inr b \<and> b64decode b = Inr token \<and> fernet_decrypt (fernet sm) token = None"
  then show "decrypt sm c = Inl InvalidToken"
    by (simp add: decrypt_def)
next
  assume h: "(\<forall>rnd data. fernet_decrypt (fernet sm) (fernet_encrypt (fernet sm') rnd data) = None)
        \<and> encrypt sm' rnd s = Inr c'"
  then obtain b where b: "str_encode s = Inr b"
    by (auto simp: encrypt_def split: sum.splits)
  then have "c' = map of_char (b64encode (fernet_encrypt (fernet sm') rnd b))"
    using h encrypt_token [OF b, of sm' rnd] by simp
  then show "decrypt sm c' = Inl InvalidToken"
    using h by (simp add: decrypt_token)
next
  assume "decrypt sm c = Inl e'"
  then show "e' \<in> {UnicodeEncodeError, BinasciiError, InvalidToken, UnicodeDecodeError}"
    by (auto simp: decrypt_def split: sum.splits option.splits
          dest: str_encode_error b64decode_error bytes_decode_error)
qed

theorem decrypt_failures_witness:
  "decrypt manager_k (str_of ''invalid-data'') = Inl BinasciiError
   \<and> decrypt manager_j (str_of ''aw=='') = Inl InvalidToken
   \<and> (\<exists>c. encrypt manager_k ''iv'' (str_of ''Test message'') = Inr c
         \<and> decrypt manager_j c = Inl InvalidToken)"
proof -
  have e: "str_encode (str_of ''invalid-data'') = Inr ''invalid-data''"
      "str_encode (str_of ''aw=='') = Inr ''aw==''"
    by (simp_all add: str_of_ascii)
  have 1: "decrypt manager_k (str_of ''invalid-data'') = Inl BinasciiError"
    using decrypt_failures [where c = "str_of ''invalid-data''" and b = "''invalid-data''"
        and e = BinasciiError and sm = manager_k] e(1) b64decode_invalid_data
    by blast
  have t: "b64decode ''aw=='' = Inr ''k''"
    using b64decode_b64encode [of "''k''"] by (simp add: table_b2a_def b64_alphabet_def)
  have r: "fernet_decrypt (fernet manager_j) ''k'' = None"
    by (simp add: manager_j_def toy_fernet_def)
  have 2: "decrypt manager_j (str_of ''aw=='') = Inl InvalidToken"
    using decrypt_failures [where c = "str_of ''aw==''" and b = "''aw==''"
        and token = "''k''" and sm = manager_j] e(2) t r
    by blast
  have i: "\<forall>rnd data. fernet_decrypt (fernet manager_j)
      (fernet_encrypt (fernet manager_k) rnd data) = None"
    by (simp add: manager_j_def manager_k_def toy_fernet_isolation)
  obtain c where c: "encrypt manager_k ''iv'' (str_of ''Test message'') = Inr c"
    using encrypt_token [of "str_of ''Test message''" "''Test message''" manager_k "''iv''"]
    by (simp add: str_of_ascii)
  have "decrypt manager_j c = Inl InvalidToken"
    using decrypt_failures [where sm = manager_j and sm' = manager_k and rnd = "''iv''"
        and s = "str_of ''Test message''" and c' = c] i c
    by blast
  with 1 2 c show ?thesis by blast
qed

text \<open>The claim as stated fails: the input of the repository's test
  \<^verbatim>\<open>test_invalid_encrypted_data\<close> is rejected by the base64 layer, before the cipher
  sees it, with \<^verbatim>\<open>binascii.Error\<close> and not with the cipher's \<^verbatim>\<open>InvalidToken\<close>.\<close>

theorem decrypt_failures_counterexample:
  "decrypt manager_k (str_of ''invalid-data'') = Inl BinasciiError
   \<and> decrypt manager_k (str_of ''invalid-data'') \<noteq> Inl InvalidToken"
  by (simp add: decrypt_def str_of_ascii b64decode_invalid_data)


end
